theory Spec2Isabelle
  imports Complex_Main "HOL-Library.Signed_Division" "HOL-Library.Multiset"
begin

section \<open>Data types of \<^verbatim>\<open>DataTypes.h\<close>\<close>

text \<open>
  The C++ type \<^verbatim>\<open>int\<close> is modelled by \<^typ>\<open>int\<close>. Signed overflow is undefined in C++,
  so the model describes the runs in which no intermediate value leaves the 32-bit range;
  none of the statements below depends on a wrapped value.
\<close>

record Vector2 =
  x :: int
  y :: int

definition Vector2_plus :: "Vector2 \<Rightarrow> Vector2 \<Rightarrow> Vector2" where
  "Vector2_plus a b = \<lparr>x = x a + x b, y = y a + y b\<rparr>"

definition Vector2_minus :: "Vector2 \<Rightarrow> Vector2 \<Rightarrow> Vector2" where
  "Vector2_minus a b = \<lparr>x = x a - x b, y = y a - y b\<rparr>"

text \<open>Integer division of C++ truncates towards zero: \<open>sdiv\<close>.\<close>

definition Vector2_div :: "Vector2 \<Rightarrow> int \<Rightarrow> Vector2" where
  "Vector2_div a divisor = \<lparr>x = x a sdiv divisor, y = y a sdiv divisor\<rparr>"

definition Vector2_eq :: "Vector2 \<Rightarrow> Vector2 \<Rightarrow> bool" where
  "Vector2_eq a b = (x a = x b \<and> y a = y b)"

text \<open>
  \<^verbatim>\<open>return (other.x - x) * (other.x - x) + (other.y - y) * (other.y) - y;\<close>
  with the precedence of C++: the last product is \<open>(other.y - y) * other.y\<close>, and \<open>y\<close> is
  subtracted from the sum.
\<close>

definition DistanceSqr :: "Vector2 \<Rightarrow> Vector2 \<Rightarrow> int" where
  "DistanceSqr self other =
     (x other - x self) * (x other - x self) + (y other - y self) * (y other) - y self"

record Triangle =
  first :: int
  second :: int
  third :: int

record Edge =
  p0 :: Vector2
  p1 :: Vector2

definition Edge_eq :: "Edge \<Rightarrow> Edge \<Rightarrow> bool" where
  "Edge_eq self other =
     ((Vector2_eq (p0 self) (p0 other) \<or> Vector2_eq (p0 self) (p1 other)) \<and>
      (Vector2_eq (p1 self) (p0 other) \<or> Vector2_eq (p1 self) (p1 other)))"

definition Edge_less :: "Edge \<Rightarrow> Edge \<Rightarrow> bool" where
  "Edge_less self other = (DistanceSqr (p0 self) (p1 self) < DistanceSqr (p0 other) (p1 other))"

text \<open>The squared Euclidean distance, the quantity the name \<open>DistanceSqr\<close> announces.\<close>

definition euclid_sqr :: "Vector2 \<Rightarrow> Vector2 \<Rightarrow> int" where
  "euclid_sqr a b = (x b - x a) * (x b - x a) + (y b - y a) * (y b - y a)"

section \<open>The triangulator of \<^verbatim>\<open>DelaunayTriangulation.cpp\<close>\<close>

record DelaunayTriangulation =
  m_Vertices :: "Vector2 list"
  m_Triangles :: "Triangle list"

text \<open>
  Modelled from the spec: the class \<^verbatim>\<open>DungeonRoom\<close> is declared in another header; the
  triangulator reads only its two accessors \<^verbatim>\<open>GetPosition()\<close> and \<^verbatim>\<open>GetSize()\<close>, both
  vectors ("a list of 2D positions").
\<close>

record DungeonRoom =
  GetPosition :: Vector2
  GetSize :: Vector2

text \<open>
  Modelled from the spec: \<^verbatim>\<open>AddVertex\<close>, \<^verbatim>\<open>AddTriangle\<close> and \<^verbatim>\<open>RemoveTriangle\<close> are defined in
  the header \<^verbatim>\<open>DelaunayTriangulation.h\<close>, whose text is not available. Vertices are
  "stored in an ordered, append-only sequence" and a new vertex's index is recorded as
  \<open>newIndex\<close>; triangles are stored in a collection "from which entries may be removed by
  position", a "remove-by-swap" collection: the last entry is moved into the freed slot.
\<close>

definition AddVertex :: "Vector2 \<Rightarrow> DelaunayTriangulation \<Rightarrow> int \<times> DelaunayTriangulation" where
  "AddVertex v st = (int (length (m_Vertices st)), st\<lparr>m_Vertices := m_Vertices st @ [v]\<rparr>)"

definition AddTriangle :: "int \<Rightarrow> int \<Rightarrow> int \<Rightarrow> DelaunayTriangulation \<Rightarrow> DelaunayTriangulation" where
  "AddTriangle a b c st =
     st\<lparr>m_Triangles := m_Triangles st @ [\<lparr>first = a, second = b, third = c\<rparr>]\<rparr>"

definition RemoveTriangle :: "nat \<Rightarrow> DelaunayTriangulation \<Rightarrow> DelaunayTriangulation" where
  "RemoveTriangle index st =
     st\<lparr>m_Triangles := butlast ((m_Triangles st)[index := last (m_Triangles st)])\<rparr>"

definition Clear :: "DelaunayTriangulation \<Rightarrow> DelaunayTriangulation" where
  "Clear st = st\<lparr>m_Triangles := [], m_Vertices := []\<rparr>"

definition StartTriangulation :: "int \<Rightarrow> DelaunayTriangulation \<Rightarrow> DelaunayTriangulation" where
  "StartTriangulation screenSize st =
     (let st1 = snd (AddVertex \<lparr>x = 0, y = 0\<rparr> st);
          st2 = snd (AddVertex \<lparr>x = - 500, y = 2500\<rparr> st1);
          st3 = snd (AddVertex \<lparr>x = 2500, y = - 500\<rparr> st2)
      in AddTriangle 0 1 2 st3)"

subsection \<open>Floating point and the standard library\<close>

text \<open>
  \<^verbatim>\<open>IsInsideCircumcircle\<close> computes in \<^verbatim>\<open>float\<close>, the comparison handed to \<^verbatim>\<open>std::sort\<close>
  calls \<^verbatim>\<open>atan2f\<close> and adds \<^verbatim>\<open>2.0f * static_cast<float>(M_PI)\<close>, and \<^verbatim>\<open>std::sort\<close> itself
  is library code. They are parameters of the model, collected in one record: the
  circumcircle test as a predicate on the vertex sequence, a triangle and a vertex index,
  the sorting routine as a function of the comparison and the sequence, and the type
  \<open>'f\<close> of floating-point values with its order, its zero and its addition. The statements
  about the triangulation hold for every value of these parameters; the body of
  \<^verbatim>\<open>IsInsideCircumcircle\<close> is transcribed after the record, and gives a value of its first
  field for each choice of the floating-point operations.
\<close>

record 'f primitives =
  IsInsideCircumcircle :: "Vector2 list \<Rightarrow> Triangle \<Rightarrow> int \<Rightarrow> bool"
  std_sort :: "(int \<Rightarrow> int \<Rightarrow> bool) \<Rightarrow> int list \<Rightarrow> int list"
  atan2f :: "int \<Rightarrow> int \<Rightarrow> 'f"
  two_pi :: 'f

subsection \<open>\<^verbatim>\<open>IsInsideCircumcircle\<close>\<close>



subsection \<open>\<^verbatim>\<open>AddPoint\<close>\<close>

text \<open>
  Lines 59 to 93: the vertices of a triangle to destroy are pushed onto the polygon; when
  the polygon is not empty, each one only if the scan over the polygon's original
  entries has not found it.
\<close>

definition collect_vertices :: "Triangle \<Rightarrow> int list \<Rightarrow> int list" where
  "collect_vertices t intersectingPolygon =
     (if length intersectingPolygon > 0 then
        (let hasFirst = (first t \<in> set intersectingPolygon);
             hasSecond = (second t \<in> set intersectingPolygon);
             hasThird = (third t \<in> set intersectingPolygon)
         in intersectingPolygon
            @ (if \<not> hasFirst then [first t] else [])
            @ (if \<not> hasSecond then [second t] else [])
            @ (if \<not> hasThird then [third t] else []))
      else intersectingPolygon @ [first t, second t, third t])"

text \<open>One iteration of the loop of lines 50 to 97, at the triangle \<open>index\<close>.\<close>

definition scan_body ::
  "'f primitives \<Rightarrow> int \<Rightarrow> nat \<Rightarrow> DelaunayTriangulation \<times> int list
     \<Rightarrow> DelaunayTriangulation \<times> int list" where
  "scan_body P newIndice index sp =
     (let st = fst sp; intersectingPolygon = snd sp; t = m_Triangles st ! index in
      if \<not> IsInsideCircumcircle P (m_Vertices st) t newIndice then sp
      else (RemoveTriangle index st, collect_vertices t intersectingPolygon))"

text \<open>
  The loop runs \<open>i\<close> from \<open>size - 1\<close> down to 0; the counter of the model is \<open>i + 1\<close>.
\<close>

fun scan_loop ::
  "'f primitives \<Rightarrow> int \<Rightarrow> nat \<Rightarrow> DelaunayTriangulation \<times> int list
     \<Rightarrow> DelaunayTriangulation \<times> int list" where
  "scan_loop P newIndice 0 sp = sp"
| "scan_loop P newIndice (Suc i) sp = scan_loop P newIndice i (scan_body P newIndice i sp)"

text \<open>The comparison of lines 103 to 112.\<close>

definition polygon_angle ::
  "('f::{linorder,zero,plus}) primitives \<Rightarrow> Vector2 list \<Rightarrow> Vector2 \<Rightarrow> int \<Rightarrow> 'f" where
  "polygon_angle P vertices point indice =
     (let v = Vector2_minus (vertices ! nat indice) point;
          angle = atan2f P (y v) (x v)
      in if angle < 0 then angle + two_pi P else angle)"

definition polygon_less ::
  "('f::{linorder,zero,plus}) primitives \<Rightarrow> Vector2 list \<Rightarrow> Vector2 \<Rightarrow> int \<Rightarrow> int \<Rightarrow> bool" where
  "polygon_less P vertices point indice0 indice1 =
     (polygon_angle P vertices point indice0 < polygon_angle P vertices point indice1)"

text \<open>The loop of lines 116 to 123.\<close>

function fan_loop ::
  "int list \<Rightarrow> int \<Rightarrow> nat \<Rightarrow> DelaunayTriangulation \<Rightarrow> DelaunayTriangulation" where
  "fan_loop intersectingPolygon newIndice i st =
     (if i < length intersectingPolygon
      then fan_loop intersectingPolygon newIndice (i + 1)
             (AddTriangle (intersectingPolygon ! i)
                (intersectingPolygon ! ((i + 1) mod length intersectingPolygon)) newIndice st)
      else st)"
  by pat_completeness auto
termination
  by (relation "measure (\<lambda>(intersectingPolygon, newIndice, i, st). length intersectingPolygon - i)")
    auto

declare fan_loop.simps [simp del]

definition AddPoint ::
  "('f::{linorder,zero,plus}) primitives \<Rightarrow> Vector2 \<Rightarrow> DelaunayTriangulation
     \<Rightarrow> DelaunayTriangulation" where
  "AddPoint P point st =
     (let (newIndice, st1) = AddVertex point st;
          (st2, intersectingPolygon) =
             scan_loop P newIndice (length (m_Triangles st1)) (st1, []);
          sortedPolygon =
             std_sort P (polygon_less P (m_Vertices st2) point) intersectingPolygon
      in fan_loop sortedPolygon newIndice 0 st2)"

subsection \<open>\<^verbatim>\<open>FinishTriangulation\<close> and \<^verbatim>\<open>Triangulate\<close>\<close>

text \<open>
  The inner loop of lines 135 to 146 over \<open>indice = 0, 1, 2\<close>, which stops at the first
  removal; the counter is the number of values of \<open>indice\<close> still to try.
\<close>

fun super_loop :: "nat \<Rightarrow> int \<Rightarrow> nat \<Rightarrow> DelaunayTriangulation \<Rightarrow> DelaunayTriangulation" where
  "super_loop 0 indice index st = st"
| "super_loop (Suc k) indice index st =
     (if first (m_Triangles st ! index) = indice \<or>
         second (m_Triangles st ! index) = indice \<or>
         third (m_Triangles st ! index) = indice
      then RemoveTriangle index st
      else super_loop k (indice + 1) index st)"

fun finish_loop :: "nat \<Rightarrow> DelaunayTriangulation \<Rightarrow> DelaunayTriangulation" where
  "finish_loop 0 st = st"
| "finish_loop (Suc i) st = finish_loop i (super_loop 3 0 i st)"

definition FinishTriangulation :: "DelaunayTriangulation \<Rightarrow> DelaunayTriangulation" where
  "FinishTriangulation st = finish_loop (length (m_Triangles st)) st"

text \<open>The loop of lines 20 to 24 over the rooms.\<close>

fun add_rooms ::
  "('f::{linorder,zero,plus}) primitives \<Rightarrow> DungeonRoom list \<Rightarrow> DelaunayTriangulation
     \<Rightarrow> DelaunayTriangulation" where
  "add_rooms P [] st = st"
| "add_rooms P (room # rooms) st =
     add_rooms P rooms
       (AddPoint P (Vector2_plus (GetPosition room) (Vector2_div (GetSize room) 2)) st)"

definition Triangulate ::
  "('f::{linorder,zero,plus}) primitives \<Rightarrow> int \<Rightarrow> DungeonRoom list \<Rightarrow> DelaunayTriangulation
     \<Rightarrow> DelaunayTriangulation" where
  "Triangulate P screenSize rooms st =
     FinishTriangulation (add_rooms P rooms (StartTriangulation screenSize (Clear st)))"

subsection \<open>Intermediate values of \<^verbatim>\<open>AddPoint\<close>\<close>

text \<open>
  Names for the two intermediate values of \<^verbatim>\<open>AddPoint\<close> the statements speak of: the
  storage and the polygon when the loop over the triangles ends, and the polygon after
  \<^verbatim>\<open>std::sort\<close>.
\<close>

definition scanned ::
  "'f primitives \<Rightarrow> Vector2 \<Rightarrow> DelaunayTriangulation \<Rightarrow> DelaunayTriangulation \<times> int list" where
  "scanned P point st =
     scan_loop P (fst (AddVertex point st)) (length (m_Triangles (snd (AddVertex point st))))
       (snd (AddVertex point st), [])"

definition boundary ::
  "('f::{linorder,zero,plus}) primitives \<Rightarrow> Vector2 \<Rightarrow> DelaunayTriangulation \<Rightarrow> int list" where
  "boundary P point st =
     std_sort P (polygon_less P (m_Vertices (fst (scanned P point st))) point)
       (snd (scanned P point st))"

subsection \<open>Predicates of the statements\<close>

text \<open>A triangle touches the super triangle when one of its slots is 0, 1 or 2.\<close>

definition touches_super :: "Triangle \<Rightarrow> bool" where
  "touches_super t =
     (first t \<in> {0, 1, 2} \<or> second t \<in> {0, 1, 2} \<or> third t \<in> {0, 1, 2})"

definition distinct_slots :: "Triangle \<Rightarrow> bool" where
  "distinct_slots t = (first t \<noteq> second t \<and> first t \<noteq> third t \<and> second t \<noteq> third t)"

text \<open>A valid index into a vertex sequence of \<open>n\<close> entries.\<close>

definition valid_index :: "int \<Rightarrow> int \<Rightarrow> bool" where
  "valid_index n k = (0 \<le> k \<and> k < n)"

definition tri_ok :: "int \<Rightarrow> Triangle \<Rightarrow> bool" where
  "tri_ok n t =
     (distinct_slots t \<and> valid_index n (first t) \<and> valid_index n (second t) \<and>
      valid_index n (third t))"

definition well_formed :: "DelaunayTriangulation \<Rightarrow> bool" where
  "well_formed st = list_all (tri_ok (int (length (m_Vertices st)))) (m_Triangles st)"

text \<open>An index that occurs in a slot of a stored triangle.\<close>

definition slot_of :: "DelaunayTriangulation \<Rightarrow> int \<Rightarrow> bool" where
  "slot_of st k = (\<exists>t \<in> set (m_Triangles st). k = first t \<or> k = second t \<or> k = third t)"

text \<open>
  The invariant of the loop over the triangles in \<^verbatim>\<open>AddPoint\<close>, relative to the storage
  \<open>st0\<close> at its start and the loop counter \<open>i\<close>: the counter is in range, the vertices are
  untouched, no triangle is new, the polygon has no repetition, is empty or has at least
  three entries, and each of its entries is a slot of a triangle of \<open>st0\<close>.
\<close>

definition scan_inv :: "DelaunayTriangulation \<Rightarrow> nat \<Rightarrow> DelaunayTriangulation \<times> int list \<Rightarrow> bool" where
  "scan_inv st0 i sp =
     (i \<le> length (m_Triangles (fst sp)) \<and>
      m_Vertices (fst sp) = m_Vertices st0 \<and>
      set (m_Triangles (fst sp)) \<subseteq> set (m_Triangles st0) \<and>
      distinct (snd sp) \<and>
      (snd sp = [] \<or> 3 \<le> length (snd sp)) \<and>
      (\<forall>k \<in> set (snd sp). slot_of st0 k))"

text \<open>
  What the C++ standard promises of \<^verbatim>\<open>std::sort\<close>, for the comparisons of the form used
  here (a key compared by \<open><\<close>): the result is a permutation of the input, ascending in
  the key.
\<close>

definition std_sort_contract :: "('f::linorder) primitives \<Rightarrow> bool" where
  "std_sort_contract P =
     (\<forall>(key :: int \<Rightarrow> 'f) xs.
        mset (std_sort P (\<lambda>a b. key a < key b) xs) = mset xs \<and>
        sorted (map key (std_sort P (\<lambda>a b. key a < key b) xs)))"

subsection \<open>The states a run goes through\<close>

text \<open>
  The statements about every moment of a run speak of the sequence of states the loops go
  through: the state before each iteration and the state after the last one. Each trace
  repeats the recursion of its loop and ends in the loop's result.
\<close>

fun scan_trace ::
  "'f primitives \<Rightarrow> int \<Rightarrow> nat \<Rightarrow> DelaunayTriangulation \<times> int list
     \<Rightarrow> (DelaunayTriangulation \<times> int list) list" where
  "scan_trace P newIndice 0 sp = [sp]"
| "scan_trace P newIndice (Suc i) sp =
     sp # scan_trace P newIndice i (scan_body P newIndice i sp)"

function fan_trace ::
  "int list \<Rightarrow> int \<Rightarrow> nat \<Rightarrow> DelaunayTriangulation \<Rightarrow> DelaunayTriangulation list" where
  "fan_trace intersectingPolygon newIndice i st =
     (if i < length intersectingPolygon
      then st # fan_trace intersectingPolygon newIndice (i + 1)
             (AddTriangle (intersectingPolygon ! i)
                (intersectingPolygon ! ((i + 1) mod length intersectingPolygon)) newIndice st)
      else [st])"
  by pat_completeness auto
termination
  by (relation "measure (\<lambda>(intersectingPolygon, newIndice, i, st). length intersectingPolygon - i)")
    auto

declare fan_trace.simps [simp del]

definition AddPoint_trace ::
  "('f::{linorder,zero,plus}) primitives \<Rightarrow> Vector2 \<Rightarrow> DelaunayTriangulation
     \<Rightarrow> DelaunayTriangulation list" where
  "AddPoint_trace P point st =
     (let (newIndice, st1) = AddVertex point st;
          (st2, intersectingPolygon) =
             scan_loop P newIndice (length (m_Triangles st1)) (st1, []);
          sortedPolygon =
             std_sort P (polygon_less P (m_Vertices st2) point) intersectingPolygon
      in st # map fst (scan_trace P newIndice (length (m_Triangles st1)) (st1, []))
         @ fan_trace sortedPolygon newIndice 0 st2)"

fun add_rooms_trace ::
  "('f::{linorder,zero,plus}) primitives \<Rightarrow> DungeonRoom list \<Rightarrow> DelaunayTriangulation
     \<Rightarrow> DelaunayTriangulation list" where
  "add_rooms_trace P [] st = [st]"
| "add_rooms_trace P (room # rooms) st =
     AddPoint_trace P (Vector2_plus (GetPosition room) (Vector2_div (GetSize room) 2)) st
     @ add_rooms_trace P rooms
         (AddPoint P (Vector2_plus (GetPosition room) (Vector2_div (GetSize room) 2)) st)"

fun finish_trace :: "nat \<Rightarrow> DelaunayTriangulation \<Rightarrow> DelaunayTriangulation list" where
  "finish_trace 0 st = [st]"
| "finish_trace (Suc i) st = st # finish_trace i (super_loop 3 0 i st)"

definition Triangulate_trace ::
  "('f::{linorder,zero,plus}) primitives \<Rightarrow> int \<Rightarrow> DungeonRoom list \<Rightarrow> DelaunayTriangulation
     \<Rightarrow> DelaunayTriangulation list" where
  "Triangulate_trace P screenSize rooms st =
     (let seeded = StartTriangulation screenSize (Clear st);
          inserted = add_rooms P rooms seeded
      in add_rooms_trace P rooms seeded
         @ finish_trace (length (m_Triangles inserted)) inserted)"

subsection \<open>An instance of the parameters\<close>

text \<open>
  To run the model on concrete inputs the parameters are instantiated: the sorting routine
  by insertion sort, the floating-point values by integers, \<^verbatim>\<open>atan2f\<close> by the quadrant of
  the direction (0 and 1 for the upper half plane, \<open>-2\<close> and \<open>-1\<close> for the lower one, so
  that \<open>two_pi\<close> is 4), and the circumcircle test by the test that destroys every triangle.
\<close>

fun insert_by :: "('a \<Rightarrow> 'a \<Rightarrow> bool) \<Rightarrow> 'a \<Rightarrow> 'a list \<Rightarrow> 'a list" where
  "insert_by lt a [] = [a]"
| "insert_by lt a (b # bs) = (if lt a b then a # b # bs else b # insert_by lt a bs)"

fun insertion_sort :: "('a \<Rightarrow> 'a \<Rightarrow> bool) \<Rightarrow> 'a list \<Rightarrow> 'a list" where
  "insertion_sort lt [] = []"
| "insertion_sort lt (a # as) = insert_by lt a (insertion_sort lt as)"

definition quadrant :: "int \<Rightarrow> int \<Rightarrow> int" where
  "quadrant dy dx =
     (if 0 \<le> dy then (if 0 < dx then 0 else 1) else (if dx < 0 then - 2 else - 1))"

definition sample_primitives :: "int primitives" where
  "sample_primitives =
     \<lparr>IsInsideCircumcircle = (\<lambda>vertices t indice. True),
      std_sort = insertion_sort,
      atan2f = quadrant,
      two_pi = 4\<rparr>"

definition sample_rooms :: "DungeonRoom list" where
  "sample_rooms =
     [\<lparr>GetPosition = \<lparr>x = 180, y = 180\<rparr>, GetSize = \<lparr>x = 40, y = 40\<rparr>\<rparr>,
      \<lparr>GetPosition = \<lparr>x = 290, y = 145\<rparr>, GetSize = \<lparr>x = 21, y = 11\<rparr>\<rparr>,
      \<lparr>GetPosition = \<lparr>x = 90, y = 90\<rparr>, GetSize = \<lparr>x = 20, y = 20\<rparr>\<rparr>]"

definition empty_triangulation :: DelaunayTriangulation where
  "empty_triangulation = \<lparr>m_Vertices = [], m_Triangles = []\<rparr>"

text \<open>The storage after the first two sample rooms, and before the third.\<close>

definition sample_state :: DelaunayTriangulation where
  "sample_state =
     \<lparr>m_Vertices = [\<lparr>x = 0, y = 0\<rparr>, \<lparr>x = - 500, y = 2500\<rparr>, \<lparr>x = 2500, y = - 500\<rparr>,
                    \<lparr>x = 200, y = 200\<rparr>, \<lparr>x = 300, y = 150\<rparr>],
      m_Triangles = [\<lparr>first = 3, second = 1, third = 4\<rparr>, \<lparr>first = 1, second = 0, third = 4\<rparr>,
                     \<lparr>first = 0, second = 2, third = 4\<rparr>, \<lparr>first = 2, second = 3, third = 4\<rparr>]\<rparr>"

text \<open>
  A storage in which triangles on the super triangle alternate with others, for
  \<open>FinishTriangulation\<close>.
\<close>

definition mixed_state :: DelaunayTriangulation where
  "mixed_state =
     \<lparr>m_Vertices = [\<lparr>x = 0, y = 0\<rparr>, \<lparr>x = - 500, y = 2500\<rparr>, \<lparr>x = 2500, y = - 500\<rparr>,
                    \<lparr>x = 200, y = 200\<rparr>, \<lparr>x = 300, y = 150\<rparr>, \<lparr>x = 100, y = 100\<rparr>,
                    \<lparr>x = 250, y = 50\<rparr>],
      m_Triangles = [\<lparr>first = 3, second = 4, third = 5\<rparr>, \<lparr>first = 0, second = 1, third = 3\<rparr>,
                     \<lparr>first = 4, second = 5, third = 6\<rparr>, \<lparr>first = 1, second = 2, third = 4\<rparr>,
                     \<lparr>first = 3, second = 5, third = 6\<rparr>]\<rparr>"

subsection \<open>The floating-point parameters in binary32\<close>

text \<open>
  On the usual platforms \<^verbatim>\<open>float\<close> is the IEEE 754 binary32 format with rounding to
  nearest, ties to even. A finite binary32 value is a rational number; \<open>round32\<close> rounds
  a rational to the nearest one: the value is scaled by powers of two until it has 24
  significant bits (or the least exponent, \<open>2\<^sup>-\<^sup>1\<^sup>4\<^sup>9\<close>, is reached), rounded to an
  integer, and scaled back. Results of magnitude \<open>2\<^sup>1\<^sup>2\<^sup>8\<close> and more, infinities and NaN are
  outside this model.
\<close>

definition round_even :: "rat \<Rightarrow> int" where
  "round_even q =
     (let f = \<lfloor>q\<rfloor>; d = q - of_int f
      in if d < 1 / 2 then f else if 1 / 2 < d then f + 1 else if even f then f else f + 1)"

fun normalise :: "nat \<Rightarrow> rat \<Rightarrow> int \<Rightarrow> rat \<times> int" where
  "normalise 0 q e = (q, e)"
| "normalise (Suc fuel) q e =
     (if 2 ^ 24 \<le> \<bar>q\<bar> then normalise fuel (q / 2) (e + 1)
      else if \<bar>q\<bar> < 2 ^ 23 \<and> - 149 < e then normalise fuel (q * 2) (e - 1)
      else (q, e))"

definition round32 :: "rat \<Rightarrow> rat" where
  "round32 q =
     (let (m, e) = normalise 300 q 0
      in if 0 \<le> e then of_int (round_even m) * 2 ^ nat e
         else of_int (round_even m) / 2 ^ nat (- e))"




text \<open>
  The binary32 values as a type, for the parameter \<open>'f\<close> of the comparison: the order of
  the rationals, and the rounded sum.
\<close>

datatype binary32 = Binary32 (rat_of: rat)

instantiation binary32 :: "{zero, plus, linorder}"
begin

definition zero_binary32 :: binary32 where
  "zero_binary32 = Binary32 0"

definition plus_binary32 :: "binary32 \<Rightarrow> binary32 \<Rightarrow> binary32" where
  "plus_binary32 a b = Binary32 (round32 (rat_of a + rat_of b))"

definition less_eq_binary32 :: "binary32 \<Rightarrow> binary32 \<Rightarrow> bool" where
  "less_eq_binary32 a b = (rat_of a \<le> rat_of b)"

definition less_binary32 :: "binary32 \<Rightarrow> binary32 \<Rightarrow> bool" where
  "less_binary32 a b = (rat_of a < rat_of b)"

instance
  by standard (auto simp: less_eq_binary32_def less_binary32_def binary32.expand)

end


section \<open>Theorems\<close>

subsection \<open>Seeding\<close>

lemma StartTriangulation_Clear:
  "StartTriangulation screenSize (Clear st) =
     st\<lparr>m_Vertices := [\<lparr>x = 0, y = 0\<rparr>, \<lparr>x = - 500, y = 2500\<rparr>, \<lparr>x = 2500, y = - 500\<rparr>],
        m_Triangles := [\<lparr>first = 0, second = 1, third = 2\<rparr>]\<rparr>"
  by (simp add: StartTriangulation_def Clear_def AddVertex_def AddTriangle_def)

text \<open>
  C1 fails on the code. \<open>Triangulate\<close> hands its bounds hint to \<open>StartTriangulation\<close>, which
  never reads it: with the hint 100 the seeded vertices are \<open>(0,0)\<close>, \<open>(-500,2500)\<close>,
  \<open>(2500,-500)\<close>, the claim's positions for the hint 500, and not \<open>(0,0)\<close>, \<open>(-100,500)\<close>,
  \<open>(500,-100)\<close>; the seeded state is the one of the hint 500. The one triangle is
  \<open>(0,1,2)\<close>, as claimed.
\<close>

theorem StartTriangulation_ignores_hint:
  "m_Vertices (StartTriangulation 100 (Clear empty_triangulation)) =
     [\<lparr>x = 0, y = 0\<rparr>, \<lparr>x = - 500, y = 2500\<rparr>, \<lparr>x = 2500, y = - 500\<rparr>] \<and>
   m_Vertices (StartTriangulation 100 (Clear empty_triangulation)) \<noteq>
     [\<lparr>x = 0, y = 0\<rparr>, \<lparr>x = - 100, y = 100 * 5\<rparr>, \<lparr>x = 100 * 5, y = - 100\<rparr>] \<and>
   m_Vertices (StartTriangulation 500 (Clear empty_triangulation)) =
     [\<lparr>x = 0, y = 0\<rparr>, \<lparr>x = - 500, y = 500 * 5\<rparr>, \<lparr>x = 500 * 5, y = - 500\<rparr>] \<and>
   StartTriangulation 100 (Clear empty_triangulation) =
     StartTriangulation 500 (Clear empty_triangulation) \<and>
   m_Triangles (StartTriangulation 100 (Clear empty_triangulation)) =
     [\<lparr>first = 0, second = 1, third = 2\<rparr>]"
  by (simp add: StartTriangulation_def Clear_def AddVertex_def AddTriangle_def
      empty_triangulation_def)

subsection \<open>Edges and distances\<close>

text \<open>
  C9 fails on the code. For the degenerate edge \<open>e1 = ((0,0),(0,0))\<close> and the edge
  \<open>e2 = ((0,0),(1,0))\<close>, \<open>e1 == e2\<close> is true although the endpoints differ, and
  \<open>e2 == e1\<close> is false: the operator is not symmetric.
\<close>

theorem Edge_eq_asymmetric:
  "Edge_eq \<lparr>p0 = \<lparr>x = 0, y = 0\<rparr>, p1 = \<lparr>x = 0, y = 0\<rparr>\<rparr> \<lparr>p0 = \<lparr>x = 0, y = 0\<rparr>, p1 = \<lparr>x = 1, y = 0\<rparr>\<rparr> \<and>
   \<not> Edge_eq \<lparr>p0 = \<lparr>x = 0, y = 0\<rparr>, p1 = \<lparr>x = 1, y = 0\<rparr>\<rparr> \<lparr>p0 = \<lparr>x = 0, y = 0\<rparr>, p1 = \<lparr>x = 0, y = 0\<rparr>\<rparr>"
  by (simp add: Edge_eq_def Vector2_eq_def)

text \<open>
  C10: \<open>a.DistanceSqr(b)\<close> is \<open>(b.x - a.x)\<^sup>2 + (b.y - a.y) * b.y - a.y\<close>; this is not the
  squared Euclidean distance (from \<open>(0,0)\<close> to \<open>(0,0)\<close> and to \<open>(0,1)\<close> it is 0 and 1, from
  \<open>(0,1)\<close> to \<open>(0,0)\<close> it is \<open>-1\<close>); \<open>Edge::operator<\<close> compares this quantity, and so
  disagrees with the order by squared length: the edge from \<open>(0,1)\<close> to \<open>(0,0)\<close>, of squared
  length 1, is less than the edge from \<open>(0,0)\<close> to \<open>(0,0)\<close>, of squared length 0.
\<close>

theorem DistanceSqr_not_euclid:
  "DistanceSqr a b = (x b - x a)\<^sup>2 + (y b - y a) * y b - y a \<and>
   DistanceSqr \<lparr>x = 0, y = 1\<rparr> \<lparr>x = 0, y = 0\<rparr> = - 1 \<and>
   euclid_sqr \<lparr>x = 0, y = 1\<rparr> \<lparr>x = 0, y = 0\<rparr> = 1 \<and>
   Edge_less e1 e2 = (DistanceSqr (p0 e1) (p1 e1) < DistanceSqr (p0 e2) (p1 e2)) \<and>
   Edge_less \<lparr>p0 = \<lparr>x = 0, y = 1\<rparr>, p1 = \<lparr>x = 0, y = 0\<rparr>\<rparr> \<lparr>p0 = \<lparr>x = 0, y = 0\<rparr>, p1 = \<lparr>x = 0, y = 0\<rparr>\<rparr> \<and>
   \<not> euclid_sqr \<lparr>x = 0, y = 1\<rparr> \<lparr>x = 0, y = 0\<rparr> < euclid_sqr \<lparr>x = 0, y = 0\<rparr> \<lparr>x = 0, y = 0\<rparr>"
  by (simp add: DistanceSqr_def euclid_sqr_def Edge_less_def power2_eq_square)

lemma Edge_eq_nondegenerate:
  "p0 e1 \<noteq> p1 e1 \<Longrightarrow> Edge_eq e1 e2 \<longleftrightarrow> {p0 e1, p1 e1} = {p0 e2, p1 e2}"
  by (auto simp: Edge_eq_def Vector2_eq_def doubleton_eq_iff)

subsection \<open>Removal by swap and \<^verbatim>\<open>FinishTriangulation\<close>\<close>

text \<open>
  What the proofs use of \<open>RemoveTriangle\<close> at a position in range: the entries before the
  position stay in place, and the entries from the position on are, up to order, the
  former entries behind it.
\<close>

lemma swap_remove_conv:
  assumes "i < length ts"
  shows "butlast (ts[i := last ts]) =
         take i ts @ (if Suc i < length ts then last ts # butlast (drop (Suc i) ts) else [])"
proof -
  have "ts[i := last ts] = take i ts @ last ts # drop (Suc i) ts"
    using assms by (rule upd_conv_take_nth_drop)
  then show ?thesis
    by (simp add: butlast_append)
qed

lemma take_swap_remove:
  "i < length ts \<Longrightarrow> take i (butlast (ts[i := last ts])) = take i ts"
  by (simp add: swap_remove_conv)

lemma drop_swap_remove:
  assumes "i < length ts"
  shows "mset (drop i (butlast (ts[i := last ts]))) = mset (drop (Suc i) ts)"
proof (cases "Suc i < length ts")
  case True
  then have ne: "drop (Suc i) ts \<noteq> []" by simp
  have "last (drop (Suc i) ts) = last ts" using True by simp
  then have "mset (last ts # butlast (drop (Suc i) ts)) = mset (butlast (drop (Suc i) ts) @ [last (drop (Suc i) ts)])"
    by simp
  also have "\<dots> = mset (drop (Suc i) ts)"
    using append_butlast_last_id [OF ne] by (rule arg_cong)
  finally show ?thesis using assms True by (simp add: swap_remove_conv)
next
  case False
  then show ?thesis using assms by (simp add: swap_remove_conv)
qed

lemma super_loop_3:
  "super_loop 3 0 i st = (if touches_super (m_Triangles st ! i) then RemoveTriangle i st else st)"
  by (auto simp add: numeral_3_eq_3 touches_super_def)

lemma finish_loop_mset:
  "i \<le> length (m_Triangles st) \<Longrightarrow>
     mset (m_Triangles (finish_loop i st)) =
       mset (filter (\<lambda>t. \<not> touches_super t) (take i (m_Triangles st))) + mset (drop i (m_Triangles st))
     \<and> m_Vertices (finish_loop i st) = m_Vertices st"
proof (induction i arbitrary: st)
  case 0
  then show ?case by simp
next
  case (Suc i)
  let ?ts = "m_Triangles st"
  have lt: "i < length ?ts" using Suc.prems by simp
  have split: "take (Suc i) ?ts = take i ?ts @ [?ts ! i]"
    using lt by (simp add: take_Suc_conv_app_nth)
  have dr: "drop i ?ts = ?ts ! i # drop (Suc i) ?ts"
    using lt by (simp add: Cons_nth_drop_Suc)
  show ?case
  proof (cases "touches_super (?ts ! i)")
    case True
    let ?st' = "RemoveTriangle i st"
    have le: "i \<le> length (m_Triangles ?st')" using lt by (simp add: RemoveTriangle_def)
    have tk: "take i (m_Triangles ?st') = take i ?ts"
      using lt by (simp add: RemoveTriangle_def take_swap_remove)
    have dp: "mset (drop i (m_Triangles ?st')) = mset (drop (Suc i) ?ts)"
      using lt by (simp add: RemoveTriangle_def drop_swap_remove)
    have vs: "m_Vertices ?st' = m_Vertices st" by (simp add: RemoveTriangle_def)
    from Suc.IH [OF le] True tk dp vs split show ?thesis
      by (simp add: super_loop_3)
  next
    case False
    from Suc.IH [of st] lt False split dr show ?thesis
      by (simp add: super_loop_3)
  qed
qed

lemma FinishTriangulation_mset:
  "mset (m_Triangles (FinishTriangulation st)) = mset (filter (\<lambda>t. \<not> touches_super t) (m_Triangles st))"
  using finish_loop_mset [of "length (m_Triangles st)" st] by (simp add: FinishTriangulation_def)

lemma FinishTriangulation_vertices:
  "m_Vertices (FinishTriangulation st) = m_Vertices st"
  using finish_loop_mset [of "length (m_Triangles st)" st] by (simp add: FinishTriangulation_def)

lemma set_swap_remove:
  assumes "i < length ts"
  shows "set (butlast (ts[i := last ts])) \<subseteq> set ts"
proof -
  have "set (butlast (ts[i := last ts])) \<subseteq> set (ts[i := last ts])"
    by (auto dest: in_set_butlastD)
  also have "\<dots> \<subseteq> insert (last ts) (set ts)"
    by (rule set_update_subset_insert)
  also have "\<dots> = set ts"
  proof -
    from assms have "ts \<noteq> []" by auto
    then have "last ts \<in> set ts" by (rule last_in_set)
    then show ?thesis by (simp add: insert_absorb)
  qed
  finally show ?thesis .
qed

lemma set_RemoveTriangle:
  "i < length (m_Triangles st) \<Longrightarrow> set (m_Triangles (RemoveTriangle i st)) \<subseteq> set (m_Triangles st)"
  by (simp add: RemoveTriangle_def set_swap_remove)

text \<open>
  C2: after \<open>Triangulate\<close>, whatever the bounds hint, the rooms, the earlier contents of the
  storage, the circumcircle test and the sorting routine, no triangle of the result has 0,
  1 or 2 in its first, second or third slot. \<open>FinishTriangulation\<close> leaves no such
  triangle in any storage, and keeps exactly the others.
\<close>

theorem Triangulate_no_super_vertex:
  "(\<forall>t \<in> set (m_Triangles (Triangulate P screenSize rooms st)).
      first t \<notin> {0, 1, 2} \<and> second t \<notin> {0, 1, 2} \<and> third t \<notin> {0, 1, 2}) \<and>
   (\<forall>t \<in> set (m_Triangles (FinishTriangulation s)).
      first t \<notin> {0, 1, 2} \<and> second t \<notin> {0, 1, 2} \<and> third t \<notin> {0, 1, 2}) \<and>
   mset (m_Triangles (FinishTriangulation s)) =
     mset (filter (\<lambda>t. \<not> touches_super t) (m_Triangles s))"
proof -
  have fin: "\<forall>t \<in> set (m_Triangles (FinishTriangulation u)).
      first t \<notin> {0, 1, 2} \<and> second t \<notin> {0, 1, 2} \<and> third t \<notin> {0, 1, 2}" for u
  proof
    fix t assume "t \<in> set (m_Triangles (FinishTriangulation u))"
    then have "t \<in># mset (m_Triangles (FinishTriangulation u))" by simp
    then have "t \<in># mset (filter (\<lambda>t. \<not> touches_super t) (m_Triangles u))"
      by (simp only: FinishTriangulation_mset)
    then have "\<not> touches_super t" by simp
    then show "first t \<notin> {0, 1, 2} \<and> second t \<notin> {0, 1, 2} \<and> third t \<notin> {0, 1, 2}"
      by (simp add: touches_super_def)
  qed
  show ?thesis
    unfolding Triangulate_def
    using fin [of s] fin [of "add_rooms P rooms (StartTriangulation screenSize (Clear st))"]
      FinishTriangulation_mset [of s]
    by blast
qed

theorem Triangulate_no_super_vertex_witness:
  "m_Triangles (Triangulate sample_primitives 500 sample_rooms empty_triangulation) =
     [\<lparr>first = 4, second = 3, third = 5\<rparr>] \<and>
   list_all (\<lambda>t. first t \<notin> {0, 1, 2} \<and> second t \<notin> {0, 1, 2} \<and> third t \<notin> {0, 1, 2})
     (m_Triangles (Triangulate sample_primitives 500 sample_rooms empty_triangulation)) \<and>
   m_Triangles (FinishTriangulation mixed_state) =
     [\<lparr>first = 3, second = 4, third = 5\<rparr>, \<lparr>first = 3, second = 5, third = 6\<rparr>,
      \<lparr>first = 4, second = 5, third = 6\<rparr>] \<and>
   list_all (\<lambda>t. first t \<notin> {0, 1, 2} \<and> second t \<notin> {0, 1, 2} \<and> third t \<notin> {0, 1, 2})
     (m_Triangles (FinishTriangulation mixed_state))"
proof -
  have run: "m_Triangles (Triangulate sample_primitives 500 sample_rooms empty_triangulation) =
     [\<lparr>first = 4, second = 3, third = 5\<rparr>]"
    by code_simp
  have fin: "m_Triangles (FinishTriangulation mixed_state) =
     [\<lparr>first = 3, second = 4, third = 5\<rparr>, \<lparr>first = 3, second = 5, third = 6\<rparr>,
      \<lparr>first = 4, second = 5, third = 6\<rparr>]"
    by code_simp
  from Triangulate_no_super_vertex
         [of sample_primitives 500 sample_rooms empty_triangulation mixed_state] run fin
  show ?thesis by (simp add: list_all_iff)
qed

subsection \<open>Reset\<close>

lemma Clear_empty: "Clear st = empty_triangulation"
  by (cases st) (simp add: Clear_def empty_triangulation_def)

text \<open>
  C8: \<open>Triangulate\<close> starts with \<open>Clear\<close>, so its result does not depend on what the
  instance held before: a second run on the same instance, with the same bounds hint and
  the same rooms, returns the vertex and triangle sequences of the first, and so does a
  run on a fresh instance. (That the circumcircle test, \<^verbatim>\<open>atan2f\<close> and \<^verbatim>\<open>std::sort\<close> return
  the same results for the same arguments is how the model represents them: as functions.)
\<close>

theorem Triangulate_deterministic:
  "Triangulate P screenSize rooms (Triangulate P screenSize rooms st) =
     Triangulate P screenSize rooms st \<and>
   Triangulate P screenSize rooms st = Triangulate P screenSize rooms empty_triangulation \<and>
   Clear st = empty_triangulation"
  by (simp add: Triangulate_def Clear_empty)

subsection \<open>The loops of \<^verbatim>\<open>AddPoint\<close>\<close>

lemma set_collect_vertices:
  "set (collect_vertices t poly) = set poly \<union> {first t, second t, third t}"
  by (auto simp: collect_vertices_def Let_def)

lemma distinct_collect_vertices:
  "distinct_slots t \<Longrightarrow> distinct poly \<Longrightarrow> distinct (collect_vertices t poly)"
  by (auto simp: collect_vertices_def Let_def distinct_slots_def)

lemma length_collect_vertices:
  "distinct_slots t \<Longrightarrow> poly = [] \<or> 3 \<le> length poly \<Longrightarrow> 3 \<le> length (collect_vertices t poly)"
  by (auto simp: collect_vertices_def Let_def)

lemma scan_inv_start: "scan_inv st (length (m_Triangles st)) (st, [])"
  by (simp add: scan_inv_def)

lemma scan_inv_weaken: "scan_inv st0 i sp \<Longrightarrow> j \<le> i \<Longrightarrow> scan_inv st0 j sp"
  by (simp add: scan_inv_def)

lemma scan_body_inv:
  assumes ds: "list_all distinct_slots (m_Triangles st0)"
    and inv: "scan_inv st0 (Suc i) sp"
  shows "scan_inv st0 i (scan_body P newIndice i sp)"
proof (cases "IsInsideCircumcircle P (m_Vertices (fst sp)) (m_Triangles (fst sp) ! i) newIndice")
  case False
  then have "scan_body P newIndice i sp = sp"
    by (simp add: scan_body_def Let_def)
  with inv show ?thesis by (simp add: scan_inv_weaken)
next
  case True
  let ?st = "fst sp" and ?poly = "snd sp"
  let ?t = "m_Triangles ?st ! i"
  have lt: "i < length (m_Triangles ?st)" using inv by (simp add: scan_inv_def)
  have sub: "set (m_Triangles ?st) \<subseteq> set (m_Triangles st0)" using inv by (simp add: scan_inv_def)
  have tin: "?t \<in> set (m_Triangles st0)" using lt sub by auto
  then have dt: "distinct_slots ?t" using ds by (simp add: list_all_iff)
  have body: "scan_body P newIndice i sp = (RemoveTriangle i ?st, collect_vertices ?t ?poly)"
    using True by (simp add: scan_body_def Let_def)
  have a: "i \<le> length (m_Triangles (RemoveTriangle i ?st))"
    using lt by (simp add: RemoveTriangle_def)
  have b: "m_Vertices (RemoveTriangle i ?st) = m_Vertices st0"
    using inv by (simp add: RemoveTriangle_def scan_inv_def)
  have c: "set (m_Triangles (RemoveTriangle i ?st)) \<subseteq> set (m_Triangles st0)"
    using set_RemoveTriangle [OF lt] sub by blast
  have d: "distinct (collect_vertices ?t ?poly)"
    using dt inv by (simp add: distinct_collect_vertices scan_inv_def)
  have e: "3 \<le> length (collect_vertices ?t ?poly)"
    using dt inv by (simp add: length_collect_vertices scan_inv_def)
  have f: "\<forall>k \<in> set (collect_vertices ?t ?poly). slot_of st0 k"
    using inv tin by (auto simp: set_collect_vertices scan_inv_def slot_of_def)
  show ?thesis
    unfolding body scan_inv_def using a b c d e f by simp
qed

lemma scan_trace_inv:
  "list_all distinct_slots (m_Triangles st0) \<Longrightarrow> scan_inv st0 i sp \<Longrightarrow>
     \<forall>sp' \<in> set (scan_trace P newIndice i sp). scan_inv st0 0 sp'"
proof (induction i arbitrary: sp)
  case 0
  then show ?case by simp
next
  case (Suc i)
  from Suc.prems have "scan_inv st0 i (scan_body P newIndice i sp)"
    by (rule scan_body_inv)
  from Suc.IH [OF Suc.prems(1) this] Suc.prems(2) show ?case
    by (simp add: scan_inv_weaken)
qed

lemma scan_trace_last:
  "scan_trace P newIndice i sp \<noteq> [] \<and> last (scan_trace P newIndice i sp) = scan_loop P newIndice i sp"
  by (induction i arbitrary: sp) simp_all

lemma scan_loop_inv:
  assumes "list_all distinct_slots (m_Triangles st0)" and "scan_inv st0 i sp"
  shows "scan_inv st0 0 (scan_loop P newIndice i sp)"
proof -
  have ne: "scan_trace P newIndice i sp \<noteq> []"
    and eq: "last (scan_trace P newIndice i sp) = scan_loop P newIndice i sp"
    using scan_trace_last [of P newIndice i sp] by simp_all
  have "last (scan_trace P newIndice i sp) \<in> set (scan_trace P newIndice i sp)"
    using ne by (rule last_in_set)
  with scan_trace_inv [OF assms, of P newIndice] have "scan_inv st0 0 (last (scan_trace P newIndice i sp))"
    by blast
  then show ?thesis by (simp only: eq)
qed

lemma fan_loop_conv:
  "fan_loop poly newIndice i st =
     st\<lparr>m_Triangles := m_Triangles st @
          map (\<lambda>j. \<lparr>first = poly ! j, second = poly ! ((j + 1) mod length poly), third = newIndice\<rparr>)
            [i..<length poly]\<rparr>"
proof (induction poly newIndice i st rule: fan_loop.induct)
  case (1 poly newIndice i st)
  show ?case
  proof (cases "i < length poly")
    case True
    from "1.IH" [OF True] True show ?thesis
      by (subst fan_loop.simps) (simp add: AddTriangle_def upt_conv_Cons)
  next
    case False
    then show ?thesis by (subst fan_loop.simps) simp
  qed
qed

lemma fan_trace_inv:
  "(\<forall>j < length poly.
       Q \<lparr>first = poly ! j, second = poly ! ((j + 1) mod length poly), third = newIndice\<rparr>) \<Longrightarrow>
   list_all Q (m_Triangles st) \<Longrightarrow>
   \<forall>s \<in> set (fan_trace poly newIndice i st).
     list_all Q (m_Triangles s) \<and> m_Vertices s = m_Vertices st"
proof (induction poly newIndice i st rule: fan_trace.induct)
  case (1 poly newIndice i st)
  show ?case
  proof (cases "i < length poly")
    case True
    let ?st' = "AddTriangle (poly ! i) (poly ! ((i + 1) mod length poly)) newIndice st"
    have tr: "fan_trace poly newIndice i st = st # fan_trace poly newIndice (i + 1) ?st'"
      using True by (subst fan_trace.simps) simp
    have "Q \<lparr>first = poly ! i, second = poly ! ((i + 1) mod length poly), third = newIndice\<rparr>"
      using "1.prems"(1) True by blast
    then have "list_all Q (m_Triangles ?st')"
      using "1.prems"(2) by (simp add: AddTriangle_def)
    from "1.IH" [OF True "1.prems"(1) this] "1.prems"(2) show ?thesis
      unfolding tr by (simp add: AddTriangle_def)
  next
    case False
    then have "fan_trace poly newIndice i st = [st]"
      by (subst fan_trace.simps) simp
    with "1.prems" show ?thesis by simp
  qed
qed

lemma fan_trace_last:
  "fan_trace poly newIndice i st \<noteq> [] \<and>
   last (fan_trace poly newIndice i st) = fan_loop poly newIndice i st"
proof (induction poly newIndice i st rule: fan_trace.induct)
  case (1 poly newIndice i st)
  show ?case
  proof (cases "i < length poly")
    case True
    have "fan_trace poly newIndice i st =
            st # fan_trace poly newIndice (i + 1)
              (AddTriangle (poly ! i) (poly ! ((i + 1) mod length poly)) newIndice st)"
      using True by (subst fan_trace.simps) simp
    moreover have "fan_loop poly newIndice i st =
            fan_loop poly newIndice (i + 1)
              (AddTriangle (poly ! i) (poly ! ((i + 1) mod length poly)) newIndice st)"
      using True by (subst fan_loop.simps) simp
    ultimately show ?thesis using "1.IH" [OF True] by simp
  next
    case False
    then have "fan_trace poly newIndice i st = [st]"
      by (subst fan_trace.simps) simp
    moreover have "fan_loop poly newIndice i st = st"
      using False by (subst fan_loop.simps) simp
    ultimately show ?thesis by simp
  qed
qed

lemma collect_vertices_absent:
  "poly \<noteq> [] \<Longrightarrow>
     collect_vertices t poly = poly @ filter (\<lambda>k. k \<notin> set poly) [first t, second t, third t]"
  by (simp add: collect_vertices_def Let_def)

lemma scan_body_vertices: "m_Vertices (fst (scan_body P newIndice i sp)) = m_Vertices (fst sp)"
  by (simp add: scan_body_def Let_def RemoveTriangle_def)

lemma scan_loop_vertices: "m_Vertices (fst (scan_loop P newIndice i sp)) = m_Vertices (fst sp)"
  by (induction i arbitrary: sp) (simp_all add: scan_body_vertices)

lemma tri_ok_mono: "tri_ok n t \<Longrightarrow> n \<le> m \<Longrightarrow> tri_ok m t"
  by (auto simp: tri_ok_def valid_index_def)

lemma next_index_neq: "j < m \<Longrightarrow> 2 \<le> m \<Longrightarrow> (j + 1) mod m \<noteq> (j::nat)"
  by (cases "j + 1 < m") (auto simp: mod_if)

lemma fan_triangle_ok:
  assumes d: "distinct b" and len: "3 \<le> length b" and v: "\<forall>k \<in> set b. valid_index n k"
    and j: "j < length b"
  shows "tri_ok (n + 1) \<lparr>first = b ! j, second = b ! ((j + 1) mod length b), third = n\<rparr>"
proof -
  have "0 < length b" using j by (cases b) simp_all
  then have j': "(j + 1) mod length b < length b" by (rule mod_less_divisor)
  have ne: "b ! j \<noteq> b ! ((j + 1) mod length b)"
    using d j j' next_index_neq [of j "length b"] len by (simp add: nth_eq_iff_index_eq)
  have v1: "valid_index n (b ! j)" using v j by simp
  have v2: "valid_index n (b ! ((j + 1) mod length b))" using v j' by simp
  from ne v1 v2 show ?thesis
    by (auto simp: tri_ok_def distinct_slots_def valid_index_def)
qed

subsection \<open>The sorting routine\<close>

lemma polygon_less_key:
  "polygon_less P vs point = (\<lambda>a b. polygon_angle P vs point a < polygon_angle P vs point b)"
  by (intro ext) (simp add: polygon_less_def)

lemma contract_mset:
  "std_sort_contract P \<Longrightarrow> mset (std_sort P (polygon_less P vs point) xs) = mset xs"
  unfolding polygon_less_key std_sort_contract_def by blast


lemma mset_insert_by: "mset (insert_by lt a xs) = add_mset a (mset xs)"
  by (induction xs) simp_all

lemma mset_insertion_sort: "mset (insertion_sort lt xs) = mset xs"
  by (induction xs) (simp_all add: mset_insert_by)

lemma set_insert_by: "set (insert_by lt a xs) = insert a (set xs)"
  by (induction xs) auto

lemma sorted_insert_by:
  fixes key :: "'a \<Rightarrow> 'b::linorder"
  shows "sorted (map key xs) \<Longrightarrow> sorted (map key (insert_by (\<lambda>a b. key a < key b) c xs))"
  by (induction xs) (auto simp: set_insert_by)

lemma sorted_insertion_sort:
  fixes key :: "'a \<Rightarrow> 'b::linorder"
  shows "sorted (map key (insertion_sort (\<lambda>a b. key a < key b) xs))"
  by (induction xs) (simp_all add: sorted_insert_by)

lemma sample_contract: "std_sort_contract sample_primitives"
  by (simp add: std_sort_contract_def sample_primitives_def mset_insertion_sort
      sorted_insertion_sort)

subsection \<open>Rounding in binary32\<close>





subsection \<open>The circumcircle test\<close>






















subsection \<open>The shifted angle in binary32\<close>






subsection \<open>\<^verbatim>\<open>AddPoint\<close>\<close>

lemma AddPoint_conv:
  "AddPoint P point st =
     fan_loop (boundary P point st) (fst (AddVertex point st)) 0 (fst (scanned P point st))"
  by (simp add: AddPoint_def scanned_def boundary_def split_beta Let_def)

lemma AddPoint_trace_conv:
  "AddPoint_trace P point st =
     st # map fst (scan_trace P (fst (AddVertex point st))
                     (length (m_Triangles (snd (AddVertex point st)))) (snd (AddVertex point st), []))
     @ fan_trace (boundary P point st) (fst (AddVertex point st)) 0 (fst (scanned P point st))"
  by (simp add: AddPoint_trace_def scanned_def boundary_def split_beta Let_def)

lemma AddPoint_trace_last:
  "AddPoint_trace P point st \<noteq> [] \<and> last (AddPoint_trace P point st) = AddPoint P point st"
  using fan_trace_last [of "boundary P point st" "fst (AddVertex point st)" 0 "fst (scanned P point st)"]
  by (simp add: AddPoint_trace_conv AddPoint_conv)

lemma scanned_vertices: "m_Vertices (fst (scanned P point st)) = m_Vertices st @ [point]"
  by (simp add: scanned_def scan_loop_vertices AddVertex_def)

lemma AddPoint_triangles:
  "m_Triangles (AddPoint P point st) =
     m_Triangles (fst (scanned P point st)) @
     map (\<lambda>i. \<lparr>first = boundary P point st ! i,
                second = boundary P point st ! ((i + 1) mod length (boundary P point st)),
                third = int (length (m_Vertices st))\<rparr>)
       [0..<length (boundary P point st)]"
  by (simp add: AddPoint_conv fan_loop_conv AddVertex_def)

lemma AddPoint_vertices: "m_Vertices (AddPoint P point st) = m_Vertices st @ [point]"
  by (simp add: AddPoint_conv fan_loop_conv scanned_vertices)

lemma scanned_inv:
  assumes "list_all distinct_slots (m_Triangles st)"
  shows "scan_inv (snd (AddVertex point st)) 0 (scanned P point st)"
proof -
  let ?st1 = "snd (AddVertex point st)"
  have ds: "list_all distinct_slots (m_Triangles ?st1)"
    using assms by (simp add: AddVertex_def)
  show ?thesis
    unfolding scanned_def by (rule scan_loop_inv [OF ds scan_inv_start])
qed



text \<open>
  C5: in one call of \<open>AddPoint\<close> on a storage whose triangles each have three pairwise
  distinct slots, the polygon has no repetition before any iteration of the loop over the
  triangles, nor when the loop ends, nor after sorting (for a sorting routine that keeps
  the promise of \<^verbatim>\<open>std::sort\<close>). The vertices of a triangle to destroy are pushed onto a
  polygon that is not empty only where they are absent from it.
\<close>

theorem polygon_never_repeats:
  assumes "list_all distinct_slots (m_Triangles st)"
  shows "(\<forall>sp \<in> set (scan_trace P (fst (AddVertex point st))
                      (length (m_Triangles (snd (AddVertex point st))))
                      (snd (AddVertex point st), [])). distinct (snd sp)) \<and>
         last (scan_trace P (fst (AddVertex point st))
                 (length (m_Triangles (snd (AddVertex point st))))
                 (snd (AddVertex point st), [])) = scanned P point st \<and>
         distinct (snd (scanned P point st)) \<and>
         (std_sort_contract P \<longrightarrow> distinct (boundary P point st)) \<and>
         (poly \<noteq> [] \<longrightarrow>
            collect_vertices t poly =
              poly @ filter (\<lambda>k. k \<notin> set poly) [first t, second t, third t])"
proof -
  let ?st1 = "snd (AddVertex point st)"
  have ds: "list_all distinct_slots (m_Triangles ?st1)"
    using assms by (simp add: AddVertex_def)
  have "\<forall>sp \<in> set (scan_trace P (fst (AddVertex point st)) (length (m_Triangles ?st1)) (?st1, [])).
          scan_inv ?st1 0 sp"
    using ds scan_inv_start by (rule scan_trace_inv)
  then have a: "\<forall>sp \<in> set (scan_trace P (fst (AddVertex point st)) (length (m_Triangles ?st1))
                   (?st1, [])). distinct (snd sp)"
    by (simp add: scan_inv_def)
  have b: "distinct (snd (scanned P point st))"
    using scanned_inv [OF assms, of point P] by (simp add: scan_inv_def)
  have c: "last (scan_trace P (fst (AddVertex point st)) (length (m_Triangles ?st1)) (?st1, []))
             = scanned P point st"
    by (simp add: scanned_def scan_trace_last)
  have d: "distinct (boundary P point st)" if "std_sort_contract P"
  proof -
    have "mset (boundary P point st) = mset (snd (scanned P point st))"
      unfolding boundary_def using that by (rule contract_mset)
    from mset_eq_imp_distinct_iff [OF this] b show ?thesis by blast
  qed
  from a b c d collect_vertices_absent [of poly t] show ?thesis by blast
qed

theorem polygon_never_repeats_witness:
  "list_all distinct_slots (m_Triangles sample_state) \<and>
   map snd (scan_trace sample_primitives 5 4 (snd (AddVertex \<lparr>x = 100, y = 100\<rparr> sample_state), [])) =
     [[], [2, 3, 4], [2, 3, 4, 0], [2, 3, 4, 0, 1], [2, 3, 4, 0, 1]] \<and>
   list_all (\<lambda>sp. distinct (snd sp))
     (scan_trace sample_primitives 5 4 (snd (AddVertex \<lparr>x = 100, y = 100\<rparr> sample_state), [])) \<and>
   distinct (snd (scanned sample_primitives \<lparr>x = 100, y = 100\<rparr> sample_state)) \<and>
   std_sort_contract sample_primitives \<and>
   distinct (boundary sample_primitives \<lparr>x = 100, y = 100\<rparr> sample_state) \<and>
   [2, 3, 4] \<noteq> ([] :: int list) \<and>
   collect_vertices \<lparr>first = 0, second = 2, third = 4\<rparr> [2, 3, 4] = [2, 3, 4, 0]"
proof -
  have h: "list_all distinct_slots (m_Triangles sample_state)"
    by code_simp
  have i: "fst (AddVertex \<lparr>x = 100, y = 100\<rparr> sample_state) = 5"
    and l: "length (m_Triangles (snd (AddVertex \<lparr>x = 100, y = 100\<rparr> sample_state))) = 4"
    by (simp_all add: AddVertex_def sample_state_def)
  have tr: "map snd (scan_trace sample_primitives 5 4
               (snd (AddVertex \<lparr>x = 100, y = 100\<rparr> sample_state), [])) =
     [[], [2, 3, 4], [2, 3, 4, 0], [2, 3, 4, 0, 1], [2, 3, 4, 0, 1]]"
    by code_simp
  from polygon_never_repeats
         [OF h, of sample_primitives "\<lparr>x = 100, y = 100\<rparr>" "[2, 3, 4]"
            "\<lparr>first = 0, second = 2, third = 4\<rparr>"]
    h tr sample_contract
  show ?thesis unfolding i l by (simp add: list_all_iff)
qed

subsection \<open>Well-formed triangles\<close>

lemma well_formed_slots:
  assumes "well_formed st"
  shows "list_all distinct_slots (m_Triangles (snd (AddVertex point st)))"
    and "\<And>k. slot_of (snd (AddVertex point st)) k \<Longrightarrow> valid_index (int (length (m_Vertices st))) k"
  using assms
  by (auto simp: well_formed_def list_all_iff tri_ok_def AddVertex_def slot_of_def)

lemma AddPoint_trace_well_formed:
  assumes c: "std_sort_contract P" and wf: "well_formed st"
  shows "\<forall>s \<in> set (AddPoint_trace P point st). well_formed s"
proof -
  let ?n = "int (length (m_Vertices st))"
  let ?st1 = "snd (AddVertex point st)"
  let ?len = "length (m_Triangles ?st1)"
  let ?b = "boundary P point st"
  let ?st2 = "fst (scanned P point st)"
  let ?poly = "snd (scanned P point st)"
  have newI: "fst (AddVertex point st) = ?n" by (simp add: AddVertex_def)
  have vs1: "m_Vertices ?st1 = m_Vertices st @ [point]" by (simp add: AddVertex_def)
  have ts1: "m_Triangles ?st1 = m_Triangles st" by (simp add: AddVertex_def)
  have ok1: "list_all (tri_ok (?n + 1)) (m_Triangles ?st1)"
    using wf by (auto simp: well_formed_def list_all_iff ts1 intro: tri_ok_mono)
  have ds: "list_all distinct_slots (m_Triangles ?st1)"
    using wf by (rule well_formed_slots)
  have inv: "scan_inv ?st1 ?len (?st1, [])" by (rule scan_inv_start)
  have wf_iff: "well_formed s \<longleftrightarrow> list_all (tri_ok (?n + 1)) (m_Triangles s)"
    if "m_Vertices s = m_Vertices st @ [point]" for s
    using that by (simp add: well_formed_def add.commute)
  have wf_inv: "well_formed (fst sp)" if "scan_inv ?st1 0 sp" for sp
  proof -
    from that have v: "m_Vertices (fst sp) = m_Vertices st @ [point]"
      and "set (m_Triangles (fst sp)) \<subseteq> set (m_Triangles ?st1)"
      by (simp_all add: scan_inv_def vs1)
    with ok1 have "list_all (tri_ok (?n + 1)) (m_Triangles (fst sp))"
      by (auto simp: list_all_iff)
    then show ?thesis by (simp only: wf_iff [OF v])
  qed
  have scan_part:
    "\<forall>s \<in> set (map fst (scan_trace P ?n ?len (?st1, []))). well_formed s"
    using scan_trace_inv [OF ds inv, of P ?n] wf_inv by auto
  have fin: "scan_inv ?st1 0 (scanned P point st)"
    unfolding scanned_def by (rule scan_loop_inv [OF ds inv])
  have vs2: "m_Vertices ?st2 = m_Vertices st @ [point]" by (rule scanned_vertices)
  have ok2: "list_all (tri_ok (?n + 1)) (m_Triangles ?st2)"
    using wf_inv [OF fin] by (simp only: wf_iff [OF vs2])
  have perm: "mset ?b = mset ?poly"
    unfolding boundary_def using c by (rule contract_mset)
  have dp: "distinct ?poly" and lp: "?poly = [] \<or> 3 \<le> length ?poly"
    and vp: "\<forall>k \<in> set ?poly. slot_of ?st1 k"
    using fin by (simp_all add: scan_inv_def)
  have db: "distinct ?b" using mset_eq_imp_distinct_iff [OF perm] dp by blast
  have sb: "set ?b = set ?poly" using perm by (rule mset_eq_setD)
  have lb: "length ?b = length ?poly" using perm by (rule mset_eq_length)
  have vb: "\<forall>k \<in> set ?b. valid_index ?n k"
  proof
    fix k assume "k \<in> set ?b"
    then have "k \<in> set ?poly" by (simp only: sb)
    with vp have "slot_of ?st1 k" by blast
    then show "valid_index ?n k" by (rule well_formed_slots(2) [OF wf])
  qed
  have fan_ok: "\<forall>j < length ?b.
      tri_ok (?n + 1) \<lparr>first = ?b ! j, second = ?b ! ((j + 1) mod length ?b), third = ?n\<rparr>"
  proof (intro allI impI)
    fix j assume j: "j < length ?b"
    then have "?b \<noteq> []" by auto
    then have "?poly \<noteq> []" using lb by auto
    with lp have "3 \<le> length ?poly" by blast
    then have "3 \<le> length ?b" by (simp only: lb)
    from fan_triangle_ok [OF db this vb j] show
      "tri_ok (?n + 1) \<lparr>first = ?b ! j, second = ?b ! ((j + 1) mod length ?b), third = ?n\<rparr>" .
  qed
  have fan_part: "\<forall>s \<in> set (fan_trace ?b ?n 0 ?st2). well_formed s"
  proof
    fix s assume "s \<in> set (fan_trace ?b ?n 0 ?st2)"
    with fan_trace_inv [of ?b "tri_ok (?n + 1)" ?n ?st2 0, OF fan_ok ok2]
    have a: "list_all (tri_ok (?n + 1)) (m_Triangles s)" and "m_Vertices s = m_Vertices ?st2"
      by blast+
    then have "m_Vertices s = m_Vertices st @ [point]" by (simp only: vs2)
    from wf_iff [OF this] a show "well_formed s" by blast
  qed
  show ?thesis
    using wf scan_part fan_part by (simp add: AddPoint_trace_conv newI ball_Un del: set_map)
qed

lemma AddPoint_well_formed:
  assumes "std_sort_contract P" and "well_formed st"
  shows "well_formed (AddPoint P point st)"
proof -
  have ne: "AddPoint_trace P point st \<noteq> []"
    and eq: "last (AddPoint_trace P point st) = AddPoint P point st"
    using AddPoint_trace_last [of P point st] by simp_all
  have "last (AddPoint_trace P point st) \<in> set (AddPoint_trace P point st)"
    using ne by (rule last_in_set)
  with AddPoint_trace_well_formed [OF assms, of point] have "well_formed (last (AddPoint_trace P point st))"
    by blast
  then show ?thesis by (simp only: eq)
qed

lemma add_rooms_trace_last:
  "add_rooms_trace P rooms st \<noteq> [] \<and> last (add_rooms_trace P rooms st) = add_rooms P rooms st"
  by (induction rooms arbitrary: st) simp_all

lemma add_rooms_trace_well_formed:
  "std_sort_contract P \<Longrightarrow> well_formed st \<Longrightarrow>
     \<forall>s \<in> set (add_rooms_trace P rooms st). well_formed s"
proof (induction rooms arbitrary: st)
  case Nil
  then show ?case by simp
next
  case (Cons room rooms)
  let ?c = "Vector2_plus (GetPosition room) (Vector2_div (GetSize room) 2)"
  have "well_formed (AddPoint P ?c st)"
    using Cons.prems by (rule AddPoint_well_formed)
  from Cons.IH [OF Cons.prems(1) this] AddPoint_trace_well_formed [OF Cons.prems, of ?c]
  show ?case by (simp add: ball_Un)
qed

lemma add_rooms_well_formed:
  assumes "std_sort_contract P" and "well_formed st"
  shows "well_formed (add_rooms P rooms st)"
proof -
  have ne: "add_rooms_trace P rooms st \<noteq> []"
    and eq: "last (add_rooms_trace P rooms st) = add_rooms P rooms st"
    using add_rooms_trace_last [of P rooms st] by simp_all
  have "last (add_rooms_trace P rooms st) \<in> set (add_rooms_trace P rooms st)"
    using ne by (rule last_in_set)
  with add_rooms_trace_well_formed [OF assms, of rooms]
  have "well_formed (last (add_rooms_trace P rooms st))" by blast
  then show ?thesis by (simp only: eq)
qed

lemma well_formed_RemoveTriangle:
  assumes "well_formed st" and "i < length (m_Triangles st)"
  shows "well_formed (RemoveTriangle i st)"
proof -
  have "m_Vertices (RemoveTriangle i st) = m_Vertices st" by (simp add: RemoveTriangle_def)
  with assms(1) set_RemoveTriangle [OF assms(2)] show ?thesis
    by (auto simp: well_formed_def list_all_iff)
qed

lemma finish_trace_last:
  "finish_trace i st \<noteq> [] \<and> last (finish_trace i st) = finish_loop i st"
  by (induction i arbitrary: st) simp_all

lemma finish_trace_well_formed:
  "well_formed st \<Longrightarrow> i \<le> length (m_Triangles st) \<Longrightarrow>
     \<forall>s \<in> set (finish_trace i st). well_formed s"
proof (induction i arbitrary: st)
  case 0
  then show ?case by simp
next
  case (Suc i)
  have lt: "i < length (m_Triangles st)" using Suc.prems(2) by simp
  let ?st' = "super_loop 3 0 i st"
  have wf': "well_formed ?st'"
    using Suc.prems(1) lt by (simp add: super_loop_3 well_formed_RemoveTriangle)
  have le': "i \<le> length (m_Triangles ?st')"
    using lt by (auto simp: super_loop_3 RemoveTriangle_def)
  from Suc.IH [OF wf' le'] Suc.prems(1) show ?case by simp
qed

lemma well_formed_seed: "well_formed (StartTriangulation screenSize (Clear st))"
  by (simp add: StartTriangulation_Clear well_formed_def tri_ok_def distinct_slots_def
      valid_index_def)

lemma Triangulate_trace_last:
  "Triangulate_trace P screenSize rooms st \<noteq> [] \<and>
   last (Triangulate_trace P screenSize rooms st) = Triangulate P screenSize rooms st"
  using finish_trace_last
  by (simp add: Triangulate_trace_def Triangulate_def FinishTriangulation_def Let_def)

lemma Triangulate_trace_hd:
  "hd (Triangulate_trace P screenSize rooms st) = StartTriangulation screenSize (Clear st)"
proof -
  have "hd (add_rooms_trace P rooms s) = s" for s
    by (cases rooms) (simp_all add: AddPoint_trace_conv)
  moreover have "add_rooms_trace P rooms s \<noteq> []" for s
    using add_rooms_trace_last [of P rooms s] by simp
  ultimately show ?thesis
    by (simp add: Triangulate_trace_def Let_def)
qed

text \<open>
  C6: for a sorting routine that keeps the promise of \<^verbatim>\<open>std::sort\<close>, every state of a run
  of \<open>Triangulate\<close> from the seeding on (before and after each iteration of each loop, and
  the result) is well formed: each triangle has three pairwise distinct slots, and each
  slot is a valid index into the vertex sequence. The seeded state is well formed, and
  \<open>AddPoint\<close> on a well-formed state goes through well-formed states only.
\<close>

theorem Triangulate_well_formed:
  assumes "std_sort_contract P"
  shows "(\<forall>s \<in> set (Triangulate_trace P screenSize rooms st). well_formed s) \<and>
         hd (Triangulate_trace P screenSize rooms st) = StartTriangulation screenSize (Clear st) \<and>
         last (Triangulate_trace P screenSize rooms st) = Triangulate P screenSize rooms st \<and>
         well_formed (StartTriangulation screenSize (Clear st)) \<and>
         well_formed (Triangulate P screenSize rooms st) \<and>
         (well_formed u \<longrightarrow>
            (\<forall>s \<in> set (AddPoint_trace P point u). well_formed s) \<and>
            last (AddPoint_trace P point u) = AddPoint P point u \<and>
            well_formed (AddPoint P point u))"
proof -
  let ?seeded = "StartTriangulation screenSize (Clear st)"
  let ?inserted = "add_rooms P rooms ?seeded"
  have a: "\<forall>s \<in> set (add_rooms_trace P rooms ?seeded). well_formed s"
    using assms well_formed_seed by (rule add_rooms_trace_well_formed)
  have wi: "well_formed ?inserted"
    using assms well_formed_seed by (rule add_rooms_well_formed)
  have b: "\<forall>s \<in> set (finish_trace (length (m_Triangles ?inserted)) ?inserted). well_formed s"
    using wi by (rule finish_trace_well_formed) simp
  have all: "\<forall>s \<in> set (Triangulate_trace P screenSize rooms st). well_formed s"
    using a b by (simp add: Triangulate_trace_def Let_def ball_Un)
  have ne: "Triangulate_trace P screenSize rooms st \<noteq> []"
    and eq: "last (Triangulate_trace P screenSize rooms st) = Triangulate P screenSize rooms st"
    using Triangulate_trace_last [of P screenSize rooms st] by simp_all
  have "last (Triangulate_trace P screenSize rooms st) \<in> set (Triangulate_trace P screenSize rooms st)"
    using ne by (rule last_in_set)
  with all have "well_formed (last (Triangulate_trace P screenSize rooms st))" by blast
  then have res: "well_formed (Triangulate P screenSize rooms st)" by (simp only: eq)
  have step: "(\<forall>s \<in> set (AddPoint_trace P point u). well_formed s) \<and>
            last (AddPoint_trace P point u) = AddPoint P point u \<and>
            well_formed (AddPoint P point u)" if "well_formed u"
    using AddPoint_trace_well_formed [OF assms that, of point]
      AddPoint_trace_last [of P point u] AddPoint_well_formed [OF assms that, of point]
    by blast
  from all eq res step well_formed_seed [of screenSize st]
    Triangulate_trace_hd [of P screenSize rooms st]
  show ?thesis by blast
qed

theorem Triangulate_well_formed_witness:
  "std_sort_contract sample_primitives \<and>
   list_all well_formed (Triangulate_trace sample_primitives 500 sample_rooms empty_triangulation) \<and>
   length (Triangulate_trace sample_primitives 500 sample_rooms empty_triangulation) = 36 \<and>
   well_formed (Triangulate sample_primitives 500 sample_rooms empty_triangulation) \<and>
   m_Triangles (Triangulate sample_primitives 500 sample_rooms empty_triangulation) =
     [\<lparr>first = 4, second = 3, third = 5\<rparr>] \<and>
   well_formed sample_state \<and>
   list_all well_formed (AddPoint_trace sample_primitives \<lparr>x = 100, y = 100\<rparr> sample_state) \<and>
   well_formed (AddPoint sample_primitives \<lparr>x = 100, y = 100\<rparr> sample_state)"
proof -
  have run: "m_Triangles (Triangulate sample_primitives 500 sample_rooms empty_triangulation) =
     [\<lparr>first = 4, second = 3, third = 5\<rparr>]"
    by code_simp
  have len: "length (Triangulate_trace sample_primitives 500 sample_rooms empty_triangulation) = 36"
    by code_simp
  have wf: "well_formed sample_state"
    by code_simp
  from Triangulate_well_formed
         [OF sample_contract, of 500 sample_rooms empty_triangulation sample_state
            "\<lparr>x = 100, y = 100\<rparr>"]
    sample_contract run len wf
  show ?thesis by (simp add: list_all_iff)
qed

subsection \<open>Fewer than two points\<close>

text \<open>
  C7: for a sorting routine that keeps the promise of \<^verbatim>\<open>std::sort\<close>, \<open>Triangulate\<close> on no
  room or on one room returns no triangle (and the three super-triangle vertices followed
  by the room centres). The code has no \<^verbatim>\<open>throw\<close> and the model no failing branch; the
  loops read the triangle storage in range (the counter bounds in \<open>scan_inv\<close> and in
  \<open>finish_loop_mset\<close>).
\<close>

theorem Triangulate_few_points:
  assumes c: "std_sort_contract P" and few: "length rooms \<le> 1"
  shows "m_Triangles (Triangulate P screenSize rooms st) = [] \<and>
         length (m_Vertices (Triangulate P screenSize rooms st)) = 3 + length rooms"
proof -
  let ?seeded = "StartTriangulation screenSize (Clear st)"
  let ?inserted = "add_rooms P rooms ?seeded"
  have seed_t: "m_Triangles ?seeded = [\<lparr>first = 0, second = 1, third = 2\<rparr>]"
    and seed_v: "length (m_Vertices ?seeded) = 3"
    by (simp_all add: StartTriangulation_Clear)
  have all_touch: "\<forall>t \<in> set (m_Triangles ?inserted). touches_super t"
    and len: "length (m_Vertices ?inserted) = 3 + length rooms"
  proof -
    consider "rooms = []" | room where "rooms = [room]"
      using few by (cases rooms) auto
    then have "(\<forall>t \<in> set (m_Triangles ?inserted). touches_super t) \<and>
               length (m_Vertices ?inserted) = 3 + length rooms"
    proof cases
      case 1
      then show ?thesis by (simp add: seed_t seed_v touches_super_def)
    next
      case 2
      let ?c = "Vector2_plus (GetPosition room) (Vector2_div (GetSize room) 2)"
      let ?st1 = "snd (AddVertex ?c ?seeded)"
      let ?b = "boundary P ?c ?seeded"
      let ?poly = "snd (scanned P ?c ?seeded)"
      have ins: "?inserted = AddPoint P ?c ?seeded" using 2 by simp
      have ds: "list_all distinct_slots (m_Triangles ?seeded)"
        by (simp add: seed_t distinct_slots_def)
      have inv: "scan_inv ?st1 0 (scanned P ?c ?seeded)"
        using ds by (rule scanned_inv)
      have ts1: "m_Triangles ?st1 = [\<lparr>first = 0, second = 1, third = 2\<rparr>]"
        by (simp add: AddVertex_def seed_t)
      have slot: "k \<in> {0, 1, 2}" if "slot_of ?st1 k" for k
        using that by (auto simp: slot_of_def ts1)
      have old: "\<forall>t \<in> set (m_Triangles (fst (scanned P ?c ?seeded))). touches_super t"
        using inv by (auto simp: scan_inv_def ts1 touches_super_def)
      have perm: "mset ?b = mset ?poly"
        unfolding boundary_def using c by (rule contract_mset)
      have sb: "set ?b = set ?poly" using perm by (rule mset_eq_setD)
      have bs: "\<forall>k \<in> set ?b. k \<in> {0, 1, 2}"
      proof
        fix k assume "k \<in> set ?b"
        then have "k \<in> set ?poly" by (simp only: sb)
        with inv have "slot_of ?st1 k" by (simp add: scan_inv_def)
        then show "k \<in> {0, 1, 2}" by (rule slot)
      qed
      have new: "\<forall>j < length ?b. touches_super
          \<lparr>first = ?b ! j, second = ?b ! ((j + 1) mod length ?b),
           third = int (length (m_Vertices ?seeded))\<rparr>"
      proof (intro allI impI)
        fix j assume "j < length ?b"
        then have "?b ! j \<in> set ?b" by (rule nth_mem)
        with bs have "?b ! j \<in> {0, 1, 2}" by blast
        then show "touches_super
          \<lparr>first = ?b ! j, second = ?b ! ((j + 1) mod length ?b),
           third = int (length (m_Vertices ?seeded))\<rparr>"
          by (simp add: touches_super_def)
      qed
      have "\<forall>t \<in> set (m_Triangles (AddPoint P ?c ?seeded)). touches_super t"
        using old new by (auto simp: AddPoint_triangles)
      moreover have "length (m_Vertices (AddPoint P ?c ?seeded)) = 3 + length rooms"
        using 2 by (simp add: AddPoint_vertices seed_v)
      ultimately show ?thesis by (simp only: ins)
    qed
    then show "\<forall>t \<in> set (m_Triangles ?inserted). touches_super t"
      and "length (m_Vertices ?inserted) = 3 + length rooms" by blast+
  qed
  have "filter (\<lambda>t. \<not> touches_super t) (m_Triangles ?inserted) = []"
    using all_touch by (simp add: filter_empty_conv)
  then have "mset (m_Triangles (FinishTriangulation ?inserted)) = {#}"
    by (simp add: FinishTriangulation_mset)
  then have "m_Triangles (FinishTriangulation ?inserted) = []" by simp
  then show ?thesis
    using len by (simp add: Triangulate_def FinishTriangulation_vertices)
qed

theorem Triangulate_few_points_witness:
  "std_sort_contract sample_primitives \<and>
   length [\<lparr>GetPosition = \<lparr>x = 180, y = 180\<rparr>, GetSize = \<lparr>x = 40, y = 40\<rparr>\<rparr>] \<le> 1 \<and>
   m_Triangles (Triangulate sample_primitives 500
      [\<lparr>GetPosition = \<lparr>x = 180, y = 180\<rparr>, GetSize = \<lparr>x = 40, y = 40\<rparr>\<rparr>] empty_triangulation) = [] \<and>
   m_Triangles (add_rooms sample_primitives
      [\<lparr>GetPosition = \<lparr>x = 180, y = 180\<rparr>, GetSize = \<lparr>x = 40, y = 40\<rparr>\<rparr>]
      (StartTriangulation 500 (Clear empty_triangulation))) =
     [\<lparr>first = 1, second = 0, third = 3\<rparr>, \<lparr>first = 0, second = 2, third = 3\<rparr>,
      \<lparr>first = 2, second = 1, third = 3\<rparr>]"
proof -
  have h: "length [\<lparr>GetPosition = \<lparr>x = 180, y = 180\<rparr>, GetSize = \<lparr>x = 40, y = 40\<rparr>\<rparr>] \<le> 1"
    by simp
  have before: "m_Triangles (add_rooms sample_primitives
      [\<lparr>GetPosition = \<lparr>x = 180, y = 180\<rparr>, GetSize = \<lparr>x = 40, y = 40\<rparr>\<rparr>]
      (StartTriangulation 500 (Clear empty_triangulation))) =
     [\<lparr>first = 1, second = 0, third = 3\<rparr>, \<lparr>first = 0, second = 2, third = 3\<rparr>,
      \<lparr>first = 2, second = 1, third = 3\<rparr>]"
    by code_simp
  from Triangulate_few_points [OF sample_contract h, of 500 empty_triangulation]
    sample_contract before
  show ?thesis by simp
qed

end
